theory Spec2Isabelle
  imports Complex_Main "HOL-Library.Product_Lexorder" "HOL-Library.Log_Nat"
begin

section \<open>Calendar dates\<close>

text \<open>
  Both programs receive dates as strings and convert them with \<^verbatim>\<open>pd.to_datetime\<close>.
  A converted date is modelled as the triple (year, month, day); the lexicographic
  order on triples is the chronological order.  Date strings carry no time of day,
  so every timestamp is at midnight.
\<close>

type_synonym date = "nat \<times> nat \<times> nat"

definition is_leap :: "nat \<Rightarrow> bool" where
  "is_leap y = (y mod 4 = 0 \<and> (y mod 100 \<noteq> 0 \<or> y mod 400 = 0))"

definition days_in_month :: "nat \<Rightarrow> nat \<Rightarrow> nat" where
  "days_in_month y m =
     (if m = 2 then (if is_leap y then 29 else 28)
      else if m = 4 \<or> m = 6 \<or> m = 9 \<or> m = 11 then 30 else 31)"

fun valid_date :: "date \<Rightarrow> bool" where
  "valid_date (y, m, d) = (1 \<le> y \<and> 1 \<le> m \<and> m \<le> 12 \<and> 1 \<le> d \<and> d \<le> days_in_month y m)"

text \<open>\<^verbatim>\<open>date.toordinal()\<close>: the proleptic Gregorian day count, 1 for 0001-01-01.\<close>

definition days_before_year :: "nat \<Rightarrow> nat" where
  "days_before_year y = (y - 1) * 365 + (y - 1) div 4 + (y - 1) div 400 - (y - 1) div 100"

definition days_before_month :: "nat \<Rightarrow> nat \<Rightarrow> nat" where
  "days_before_month y m = (\<Sum>k\<leftarrow>[1..<m]. days_in_month y k)"

fun toordinal :: "date \<Rightarrow> int" where
  "toordinal (y, m, d) = int (days_before_year y + days_before_month y m + d)"

text \<open>
  The month-end frequency \<^verbatim>\<open>freq='M'\<close> of \<^verbatim>\<open>pd.date_range\<close>: a start that is not
  the last day of its month is rolled forward to it, and each further date is the
  last day of the following month.
\<close>

fun is_month_end :: "date \<Rightarrow> bool" where
  "is_month_end (y, m, d) = (d = days_in_month y m)"

fun rollforward :: "date \<Rightarrow> date" where
  "rollforward (y, m, d) = (y, m, days_in_month y m)"

fun next_month_end :: "date \<Rightarrow> date" where
  "next_month_end (y, m, d) =
     (if 12 \<le> m then (y + 1, 1, days_in_month (y + 1) 1) else (y, m + 1, days_in_month y (m + 1)))"

text \<open>The generating loop of \<^verbatim>\<open>date_range(start=..., end=..., freq='M')\<close>.\<close>

function month_ends_upto :: "date \<Rightarrow> date \<Rightarrow> date list" where
  "month_ends_upto cur end_date =
     (if cur \<le> end_date
      then cur # (if cur = end_date then [] else month_ends_upto (next_month_end cur) end_date)
      else [])"
  by pat_completeness auto
termination
  by (relation "measure (\<lambda>(cur, e). 12 * fst e + 13 - (12 * fst cur + min (fst (snd cur)) 12))")
     (auto simp: less_eq_prod_def less_prod_def split: if_splits)

declare month_ends_upto.simps [simp del]

definition date_range_M :: "date \<Rightarrow> date \<Rightarrow> date list" where
  "date_range_M start end_date = month_ends_upto (rollforward start) end_date"

text \<open>The generating loop of \<^verbatim>\<open>date_range(start, periods=n, freq='M')\<close>.\<close>

fun month_ends_from :: "date \<Rightarrow> nat \<Rightarrow> date list" where
  "month_ends_from cur 0 = []"
| "month_ends_from cur (Suc n) = cur # month_ends_from (next_month_end cur) n"

definition date_range_M_periods :: "date \<Rightarrow> nat \<Rightarrow> date list" where
  "date_range_M_periods start n = month_ends_from (rollforward start) n"

text \<open>\<^verbatim>\<open>d + pd.DateOffset(months=1)\<close>: the same day of the next month, clamped to its length.\<close>

fun add_one_month :: "date \<Rightarrow> date" where
  "add_one_month (y, m, d) =
     (if 12 \<le> m then (y + 1, 1, min d (days_in_month (y + 1) 1))
      else (y, m + 1, min d (days_in_month y (m + 1))))"

text \<open>
  \<^verbatim>\<open>.min()\<close> and \<^verbatim>\<open>.max()\<close> of a date column; \<open>None\<close> is pandas' \<^verbatim>\<open>NaT\<close>, the
  result on an empty column.
\<close>

fun dates_min :: "date list \<Rightarrow> date option" where
  "dates_min [] = None"
| "dates_min (d # ds) = Some (fold min ds d)"

fun dates_max :: "date list \<Rightarrow> date option" where
  "dates_max [] = None"
| "dates_max (d # ds) = Some (fold max ds d)"

section \<open>Numbers\<close>

text \<open>
  In the storage contract a Python number is modelled by its exact rational value,
  and every arithmetic operation of the source is followed by a rounding function
  \<open>rnd\<close>, a parameter of the model: the identity \<open>exact\<close> for Python's exact numbers
  (\<^verbatim>\<open>int\<close>), and
  \<open>round_double\<close> for \<^verbatim>\<open>float\<close>, the IEEE 754 binary64 round-to-nearest-even of the
  exact result (53 significant bits; overflow and subnormal numbers are outside
  the model).
\<close>

definition exact :: "rat \<Rightarrow> rat" where
  "exact x = x"

definition pow2 :: "int \<Rightarrow> rat" where
  "pow2 k = (if 0 \<le> k then 2 ^ nat k else 1 / 2 ^ nat (- k))"

definition round_half_even :: "rat \<Rightarrow> int" where
  "round_half_even x =
     (let f = \<lfloor>x\<rfloor>; r = x - of_int f
      in if r < 1 / 2 then f else if 1 / 2 < r then f + 1 else if even f then f else f + 1)"

definition binade :: "rat \<Rightarrow> int" where
  "binade a =
     (let (p, q) = quotient_of a; k = bitlen p - bitlen q
      in if pow2 k \<le> a then k else k - 1)"

definition round_double :: "rat \<Rightarrow> rat" where
  "round_double x =
     (if x = 0 then 0
      else let a = \<bar>x\<bar>; u = pow2 (binade a - 52)
           in sgn x * of_int (round_half_even (a / u)) * u)"

section \<open>Library exceptions\<close>

text \<open>
  Neither program raises an exception of its own.  The exceptions that reach the
  caller come from the libraries: \<^verbatim>\<open>ValueError\<close> from \<^verbatim>\<open>pd.date_range\<close> on a \<^verbatim>\<open>NaT\<close>
  bound and from scikit-learn's input validation on an array without samples, and
  \<^verbatim>\<open>IndexError\<close> from indexing a Python list out of range.
\<close>

datatype error = ValueError | IndexError

fun getitem :: "'a list \<Rightarrow> nat \<Rightarrow> error + 'a" where
  "getitem xs i = (if i < length xs then Inr (xs ! i) else Inl IndexError)"

text \<open>\<^verbatim>\<open>list(xs).index(x)\<close>: the position of the first occurrence.\<close>

fun index_of :: "'a \<Rightarrow> 'a list \<Rightarrow> nat option" where
  "index_of x [] = None"
| "index_of x (y # ys) = (if x = y then Some 0 else map_option Suc (index_of x ys))"

section \<open>Task 2: the storage contract\<close>

text \<open>The arguments of \<^verbatim>\<open>price_storage_contract\<close>, after the conversion of the date strings.\<close>

record contract =
  injection_dates :: "date list"
  withdrawal_dates :: "date list"
  purchase_prices :: "rat list"
  sale_prices :: "rat list"
  injection_rate :: rat
  withdrawal_rate :: rat
  max_storage :: rat
  storage_cost :: rat
  injection_withdrawal_cost :: rat
  transportation_cost :: rat

text \<open>The two messages the function prints, each with the date it names.\<close>

datatype diagnostic = Insufficient_storage_space date | Insufficient_gas_stored date

text \<open>The local variables of the date loop, and what has been printed so far.\<close>

record sim_state =
  volume :: rat
  total_purchase_cost :: rat
  total_sales_revenue :: rat
  total_injection_withdrawal_cost :: rat
  total_transportation_cost :: rat
  printed :: "diagnostic list"

definition initial_state :: sim_state where
  "initial_state =
     \<lparr>volume = 0, total_purchase_cost = 0, total_sales_revenue = 0,
      total_injection_withdrawal_cost = 0, total_transportation_cost = 0, printed = []\<rparr>"

text \<open>\<^verbatim>\<open>sorted(set(injection_dates) | set(withdrawal_dates))\<close>\<close>

definition all_dates :: "contract \<Rightarrow> date list" where
  "all_dates c = sorted_list_of_set (set (injection_dates c) \<union> set (withdrawal_dates c))"

text \<open>The first \<^verbatim>\<open>if\<close> of the loop body (source lines 45 to 53).\<close>

definition inject :: "(rat \<Rightarrow> rat) \<Rightarrow> contract \<Rightarrow> date \<Rightarrow> sim_state \<Rightarrow> error + sim_state" where
  "inject rnd c current_date s =
     (case index_of current_date (injection_dates c) of
        None \<Rightarrow> Inr s
      | Some index \<Rightarrow>
          if volume s \<le> rnd (max_storage c - injection_rate c)
          then (case getitem (purchase_prices c) index of
                  Inl e \<Rightarrow> Inl e
                | Inr price \<Rightarrow>
                    Inr (s\<lparr>volume := rnd (volume s + injection_rate c),
                           total_purchase_cost :=
                             rnd (total_purchase_cost s + rnd (injection_rate c * price)),
                           total_injection_withdrawal_cost :=
                             rnd (total_injection_withdrawal_cost s + injection_withdrawal_cost c),
                           total_transportation_cost :=
                             rnd (total_transportation_cost s + transportation_cost c)\<rparr>))
          else Inr (s\<lparr>printed := printed s @ [Insufficient_storage_space current_date]\<rparr>))"

text \<open>The second \<^verbatim>\<open>if\<close> of the loop body (source lines 55 to 63).\<close>

definition withdraw :: "(rat \<Rightarrow> rat) \<Rightarrow> contract \<Rightarrow> date \<Rightarrow> sim_state \<Rightarrow> error + sim_state" where
  "withdraw rnd c current_date s =
     (case index_of current_date (withdrawal_dates c) of
        None \<Rightarrow> Inr s
      | Some index \<Rightarrow>
          if withdrawal_rate c \<le> volume s
          then (case getitem (sale_prices c) index of
                  Inl e \<Rightarrow> Inl e
                | Inr price \<Rightarrow>
                    Inr (s\<lparr>volume := rnd (volume s - withdrawal_rate c),
                           total_sales_revenue :=
                             rnd (total_sales_revenue s + rnd (withdrawal_rate c * price)),
                           total_injection_withdrawal_cost :=
                             rnd (total_injection_withdrawal_cost s + injection_withdrawal_cost c),
                           total_transportation_cost :=
                             rnd (total_transportation_cost s + transportation_cost c)\<rparr>))
          else Inr (s\<lparr>printed := printed s @ [Insufficient_gas_stored current_date]\<rparr>))"

text \<open>One iteration of the loop: the injection check, then the withdrawal check.\<close>

definition visit :: "(rat \<Rightarrow> rat) \<Rightarrow> contract \<Rightarrow> date \<Rightarrow> sim_state \<Rightarrow> error + sim_state" where
  "visit rnd c current_date s =
     (case inject rnd c current_date s of
        Inl e \<Rightarrow> Inl e
      | Inr s' \<Rightarrow> withdraw rnd c current_date s')"

text \<open>The loop over the dates still to visit; an exception ends it.\<close>

fun run_dates :: "(rat \<Rightarrow> rat) \<Rightarrow> contract \<Rightarrow> date list \<Rightarrow> sim_state \<Rightarrow> error + sim_state" where
  "run_dates rnd c [] s = Inr s"
| "run_dates rnd c (current_date # ds) s =
     (case visit rnd c current_date s of
        Inl e \<Rightarrow> Inl e
      | Inr s' \<Rightarrow> run_dates rnd c ds s')"

text \<open>
  Source line 66: the number of month ends from the earliest injection date to the
  latest withdrawal date; \<^verbatim>\<open>date_range\<close> raises \<^verbatim>\<open>ValueError\<close> when a bound is \<^verbatim>\<open>NaT\<close>.
\<close>

definition storage_duration :: "contract \<Rightarrow> error + nat" where
  "storage_duration c =
     (case (dates_min (injection_dates c), dates_max (withdrawal_dates c)) of
        (Some start, Some end_date) \<Rightarrow> Inr (length (date_range_M start end_date))
      | _ \<Rightarrow> Inl ValueError)"

text \<open>The values of the local variables when the function returns.\<close>

record outcome =
  final :: sim_state
  total_storage_cost :: rat
  contract_value :: rat

definition settle :: "(rat \<Rightarrow> rat) \<Rightarrow> contract \<Rightarrow> sim_state \<Rightarrow> nat \<Rightarrow> outcome" where
  "settle rnd c s n =
     (let storage = rnd (storage_cost c * of_nat n)
      in \<lparr>final = s, total_storage_cost = storage,
          contract_value =
            rnd (rnd (rnd (rnd (total_sales_revenue s - total_purchase_cost s) - storage)
                        - total_injection_withdrawal_cost s)
                   - total_transportation_cost s)\<rparr>)"

definition run_contract :: "(rat \<Rightarrow> rat) \<Rightarrow> contract \<Rightarrow> error + outcome" where
  "run_contract rnd c =
     (case run_dates rnd c (all_dates c) initial_state of
        Inl e \<Rightarrow> Inl e
      | Inr s \<Rightarrow>
          (case storage_duration c of
             Inl e \<Rightarrow> Inl e
           | Inr n \<Rightarrow> Inr (settle rnd c s n)))"

definition price_storage_contract :: "(rat \<Rightarrow> rat) \<Rightarrow> contract \<Rightarrow> error + rat" where
  "price_storage_contract rnd c = map_sum id contract_value (run_contract rnd c)"

text \<open>The example at the end of the source file (lines 79 to 88); the prices are floats.\<close>

definition example_contract :: contract where
  "example_contract =
     \<lparr>injection_dates = [(2023, 5, 1), (2023, 5, 2), (2023, 5, 3)],
      withdrawal_dates = [(2023, 11, 1), (2023, 11, 2), (2023, 11, 3)],
      purchase_prices = [round_double 2, round_double (21 / 10), round_double (22 / 10)],
      sale_prices = [round_double 3, round_double (31 / 10), round_double (32 / 10)],
      injection_rate = 1000000, withdrawal_rate = 1000000, max_storage = 3000000,
      storage_cost = 100000, injection_withdrawal_cost = 10000, transportation_cost = 50000\<rparr>"

section \<open>Task 1: the price model\<close>

text \<open>
  The data frame that \<^verbatim>\<open>load_data\<close> returns has the columns \<^verbatim>\<open>Dates\<close> and \<^verbatim>\<open>Prices\<close>,
  here the list of its rows.  \<^verbatim>\<open>extrapolate_future_prices\<close> assigns a column \<^verbatim>\<open>Time\<close>
  and \<^verbatim>\<open>estimate_price\<close> a column \<^verbatim>\<open>Date_ordinal\<close> to the frame they are given; a
  frame that has no such column yet holds \<open>None\<close> there.  Prices are real numbers.
\<close>

record frame =
  rows :: "(date \<times> real) list"
  time_column :: "int list option"
  date_ordinal_column :: "int list option"

definition Dates :: "frame \<Rightarrow> date list" where
  "Dates data = map fst (rows data)"

definition Prices :: "frame \<Rightarrow> real list" where
  "Prices data = map snd (rows data)"

subsection \<open>scikit-learn's linear regression\<close>

text \<open>
  \<^verbatim>\<open>LinearRegression().fit(X, y)\<close> with one feature validates its input, rejecting an
  array without samples with \<^verbatim>\<open>ValueError\<close>, and then computes \<^verbatim>\<open>coef_\<close> and \<^verbatim>\<open>intercept_\<close>
  with the floating-point least-squares solver of the linear algebra library.  That
  solver is not part of the source, and its result is a pair of doubles that depends
  on its own sequence of operations: it is a parameter of the model, \<open>solve X y\<close>
  being the pair (\<^verbatim>\<open>coef_\<close>, \<^verbatim>\<open>intercept_\<close>) it returns for the abscissae \<open>X\<close> and the
  targets \<open>y\<close>.  \<^verbatim>\<open>predict\<close> validates its input in the same way and evaluates
  \<^verbatim>\<open>X @ coef_ + intercept_\<close>: for each sample one product and one sum, each followed by
  the rounding \<open>rnd\<close>.
\<close>

type_synonym solver = "real list \<Rightarrow> real list \<Rightarrow> real \<times> real"

definition fit :: "solver \<Rightarrow> real list \<Rightarrow> real list \<Rightarrow> error + real \<times> real" where
  "fit solve X y = (if X = [] then Inl ValueError else Inr (solve X y))"

definition predict :: "(real \<Rightarrow> real) \<Rightarrow> real \<times> real \<Rightarrow> real list \<Rightarrow> error + real list" where
  "predict rnd model X =
     (if X = [] then Inl ValueError
      else Inr (map (\<lambda>x. rnd (rnd (x * fst model) + snd model)) X))"

subsection \<open>NumPy's interpolation\<close>

text \<open>
  \<^verbatim>\<open>np.interp(x, xp, fp)\<close> for one abscissa \<open>x\<close> and sample points in ascending order,
  given as the list of pairs.  Left of the first point and right of the last one the
  end values are returned.  Otherwise the segment \<open>xp[j] \<le> x < xp[j+1]\<close> is looked up;
  at the last point and where \<open>x = xp[j]\<close> the sample value is returned as it is, and
  elsewhere \<open>slope * (x - xp[j]) + fp[j]\<close> is computed in floating point, each
  operation followed by the rounding \<open>rnd\<close>.  An empty array of sample points is
  rejected with \<^verbatim>\<open>ValueError\<close>.
\<close>

fun interp_segment :: "(real \<Rightarrow> real) \<Rightarrow> real \<Rightarrow> real \<times> real \<Rightarrow> (real \<times> real) list \<Rightarrow> real" where
  "interp_segment rnd x p [] = snd p"
| "interp_segment rnd x p (q # qs) =
     (if x < fst q
      then (if fst p = x then snd p
            else let slope = rnd (rnd (snd q - snd p) / rnd (fst q - fst p))
                 in rnd (rnd (slope * rnd (x - fst p)) + snd p))
      else interp_segment rnd x q qs)"

fun np_interp :: "(real \<Rightarrow> real) \<Rightarrow> real \<Rightarrow> (real \<times> real) list \<Rightarrow> error + real" where
  "np_interp rnd x [] = Inl ValueError"
| "np_interp rnd x (p # ps) =
     (if x < fst p then Inr (snd p)
      else if fst (last (p # ps)) < x then Inr (snd (last (p # ps)))
      else Inr (interp_segment rnd x p ps))"

subsection \<open>The two functions\<close>

text \<open>
  Both functions return their result, or raise, and leave the frame they were given
  with a column assigned: the model returns the pair of the outcome and the frame
  after the call.  They take the rounding of the floating-point operations and the
  solver of the regression as their first arguments.  The plot that
  \<^verbatim>\<open>extrapolate_future_prices\<close> shows is not modelled.
\<close>

definition ordinals :: "frame \<Rightarrow> int list" where
  "ordinals data = map toordinal (Dates data)"

definition in_range :: "frame \<Rightarrow> date \<Rightarrow> bool" where
  "in_range data input_date =
     (case (dates_min (Dates data), dates_max (Dates data)) of
        (Some lo, Some hi) \<Rightarrow> lo \<le> input_date \<and> input_date \<le> hi
      | _ \<Rightarrow> False)"

definition estimate_price ::
  "(real \<Rightarrow> real) \<Rightarrow> solver \<Rightarrow> frame \<Rightarrow> date \<Rightarrow> (error + real) \<times> frame" where
  "estimate_price rnd solve data input_date =
     (let data' = data\<lparr>date_ordinal_column := Some (ordinals data)\<rparr>;
          input_date_ordinal = of_int (toordinal input_date);
          X = map of_int (ordinals data);
          y = Prices data
      in (if in_range data input_date
          then np_interp rnd input_date_ordinal (zip X y)
          else (case fit solve X y of
                  Inl e \<Rightarrow> Inl e
                | Inr model \<Rightarrow>
                    (case predict rnd model [input_date_ordinal] of
                       Inl e \<Rightarrow> Inl e
                     | Inr ps \<Rightarrow> getitem ps 0)),
          data'))"

definition extrapolate_future_prices ::
  "(real \<Rightarrow> real) \<Rightarrow> solver \<Rightarrow> frame \<Rightarrow> nat \<Rightarrow> (error + (date \<times> real) list) \<times> frame" where
  "extrapolate_future_prices rnd solve data months =
     (let n = length (rows data);
          data' = data\<lparr>time_column := Some (map int [0..<n])\<rparr>;
          X = map of_nat [0..<n];
          y = Prices data
      in (case fit solve X y of
            Inl e \<Rightarrow> Inl e
          | Inr model \<Rightarrow>
              (case predict rnd model (map of_nat [n..<n + months]) of
                 Inl e \<Rightarrow> Inl e
               | Inr future_prices \<Rightarrow>
                   (case dates_max (Dates data) of
                      None \<Rightarrow> Inl ValueError
                    | Some last_date \<Rightarrow>
                        Inr (zip (date_range_M_periods (add_one_month last_date) months)
                                 future_prices))),
          data'))"

section \<open>Example inputs\<close>

text \<open>
  A contract whose injection schedule names 2023-05-02 twice, at prices 2 and 7, and
  whose withdrawal schedule names the same date.
\<close>

definition duplicate_contract :: contract where
  "duplicate_contract =
     \<lparr>injection_dates = [(2023, 5, 2), (2023, 5, 1), (2023, 5, 2)],
      withdrawal_dates = [(2023, 5, 2)],
      purchase_prices = [2, 5, 7], sale_prices = [3],
      injection_rate = 10, withdrawal_rate = 10, max_storage = 100,
      storage_cost = 0, injection_withdrawal_cost = 1, transportation_cost = 1\<rparr>"

text \<open>The example contract without its withdrawals.\<close>

definition no_withdrawals :: contract where
  "no_withdrawals = example_contract\<lparr>withdrawal_dates := [], sale_prices := []\<rparr>"

text \<open>
  A contract with a capacity of 1.95 and an injection rate of 0.39, both floats, with
  five injection dates.
\<close>

definition overfill_contract :: contract where
  "overfill_contract =
     \<lparr>injection_dates = [(2023, 5, 1), (2023, 5, 2), (2023, 5, 3), (2023, 5, 4), (2023, 5, 5)],
      withdrawal_dates = [(2023, 11, 1)],
      purchase_prices = [round_double 2, round_double 2, round_double 2, round_double 2, round_double 2],
      sale_prices = [round_double 3],
      injection_rate = round_double (39 / 100), withdrawal_rate = round_double (39 / 100),
      max_storage = round_double (39 / 20),
      storage_cost = 0, injection_withdrawal_cost = 0, transportation_cost = 0\<rparr>"

text \<open>Three month-end observations, in a frame as loaded from the file.\<close>

definition example_frame :: frame where
  "example_frame =
     \<lparr>rows = [((2021, 1, 31), 10), ((2021, 2, 28), 12), ((2021, 3, 31), 11)],
      time_column = None, date_ordinal_column = None\<rparr>"

section \<open>Notions used in the statements\<close>

text \<open>
  One iteration of the date loop on the outcome so far: an exception raised earlier
  stays; otherwise the injection check is followed by the withdrawal check.
\<close>

definition visit_result :: "(rat \<Rightarrow> rat) \<Rightarrow> contract \<Rightarrow> error + sim_state \<Rightarrow> date \<Rightarrow> error + sim_state" where
  "visit_result rnd c r d =
     (case r of Inl e \<Rightarrow> Inl e
      | Inr s \<Rightarrow> (case inject rnd c d s of Inl e \<Rightarrow> Inl e | Inr s' \<Rightarrow> withdraw rnd c d s'))"

text \<open>The month ends in the closed interval from \<open>a\<close> to \<open>b\<close>.\<close>

definition month_ends_between :: "date \<Rightarrow> date \<Rightarrow> date set" where
  "month_ends_between a b = {d. valid_date d \<and> is_month_end d \<and> a \<le> d \<and> d \<le> b}"

text \<open>The number of days of a year.\<close>

definition days_in_year :: "nat \<Rightarrow> nat" where
  "days_in_year y = (if is_leap y then 366 else 365)"



text \<open>
  The solver in exact arithmetic, as the regression specifies it: the data are
  centred, the coefficient is the least-squares solution of minimum norm on the
  centred data (zero when all abscissae coincide), and the intercept makes the line
  pass through the means.  The floating-point solver returns an approximation of
  this pair.
\<close>

definition mean :: "real list \<Rightarrow> real" where
  "mean xs = sum_list xs / of_nat (length xs)"

definition least_squares :: solver where
  "least_squares X y =
     (let X_offset = mean X; y_offset = mean y;
          sxx = (\<Sum>x\<leftarrow>X. (x - X_offset) * (x - X_offset));
          sxy = (\<Sum>(x, v)\<leftarrow>zip X y. (x - X_offset) * (v - y_offset));
          coef = (if sxx = 0 then 0 else sxy / sxx)
      in (coef, y_offset - X_offset * coef))"





section \<open>Facts about rounding\<close>

text \<open>
  \<open>binade a\<close> is the exponent \<open>e\<close> with \<open>2\<^sup>e \<le> a < 2\<^sup>e\<^sup>+\<^sup>1\<close>, and an integer of
  magnitude at most \<open>2\<^sup>5\<^sup>3\<close> is a double: rounding leaves it as it is.
\<close>

lemma pow2_powi: "pow2 k = 2 powi k"
  by (simp add: pow2_def power_int_def inverse_eq_divide power_one_over)

lemma pow2_pos: "0 < pow2 k"
  by (simp add: pow2_powi)

lemma binade_lower: assumes "0 < a" shows "pow2 (binade a) \<le> a"
proof -
  obtain p q where pq: "quotient_of a = (p, q)" by (cases "quotient_of a")
  have q: "0 < q" using pq by (rule quotient_of_denom_pos)
  have a: "a = of_int p / of_int q" using pq by (rule quotient_of_div)
  have p: "0 < p" using assms q a by (simp add: zero_less_divide_iff)
  define k where "k = bitlen p - bitlen q"
  have bp: "(2::int) ^ nat (bitlen p - 1) \<le> p" using bitlen_bounds[OF p] by simp
  have bq: "q < (2::int) ^ nat (bitlen q)" using bitlen_bounds[OF q] by simp
  have bp1: "1 \<le> bitlen p" using p by (simp add: bitlen_alt_def)
  have bq1: "0 \<le> bitlen q" by (rule bitlen_nonneg)
  have "pow2 (k - 1) \<le> a"
  proof -
    have "(2::rat) powi (bitlen p - 1) \<le> of_int p"
    proof -
      have "(of_int ((2::int) ^ nat (bitlen p - 1)) :: rat) \<le> of_int p" using bp by (simp only: of_int_le_iff)
      then show ?thesis using bp1 by (simp add: power_int_def)
    qed
    moreover have "(of_int q :: rat) \<le> 2 powi (bitlen q)"
    proof -
      have "(of_int q :: rat) \<le> of_int ((2::int) ^ nat (bitlen q))" using bq by (simp only: of_int_le_iff)
      then show ?thesis using bq1 by (simp add: power_int_def)
    qed
    ultimately have "(2::rat) powi (bitlen p - 1) / 2 powi (bitlen q) \<le> of_int p / of_int q"
      using q p by (intro frac_le) auto
    moreover have "(2::rat) powi (bitlen p - 1) / 2 powi (bitlen q) = 2 powi (k - 1)"
      by (simp add: k_def power_int_diff)
    ultimately show ?thesis by (simp add: a pow2_powi)
  qed
  then show ?thesis
    by (simp add: binade_def pq k_def Let_def)
qed

lemma binade_upper: assumes "0 < a" shows "a < pow2 (binade a + 1)"
proof -
  obtain p q where pq: "quotient_of a = (p, q)" by (cases "quotient_of a")
  have q: "0 < q" using pq by (rule quotient_of_denom_pos)
  have a: "a = of_int p / of_int q" using pq by (rule quotient_of_div)
  have p: "0 < p" using assms q a by (simp add: zero_less_divide_iff)
  define k where "k = bitlen p - bitlen q"
  have bp: "p < (2::int) ^ nat (bitlen p)" using bitlen_bounds[OF p] by simp
  have bq: "(2::int) ^ nat (bitlen q - 1) \<le> q" using bitlen_bounds[OF q] by simp
  have bq1: "1 \<le> bitlen q" using q by (simp add: bitlen_alt_def)
  have bp1: "0 \<le> bitlen p" by (rule bitlen_nonneg)
  have "a < pow2 (k + 1)"
  proof -
    have "(of_int p :: rat) < 2 powi (bitlen p)"
    proof -
      have "(of_int p :: rat) < of_int ((2::int) ^ nat (bitlen p))" using bp by (simp only: of_int_less_iff)
      then show ?thesis using bp1 by (simp add: power_int_def)
    qed
    moreover have "(2::rat) powi (bitlen q - 1) \<le> of_int q"
    proof -
      have "(of_int ((2::int) ^ nat (bitlen q - 1)) :: rat) \<le> of_int q" using bq by (simp only: of_int_le_iff)
      then show ?thesis using bq1 by (simp add: power_int_def)
    qed
    ultimately have "of_int p / of_int q < (2::rat) powi (bitlen p) / 2 powi (bitlen q - 1)"
      using q p by (intro frac_less) auto
    moreover have "(2::rat) powi (bitlen p) / 2 powi (bitlen q - 1) = 2 powi (k + 1)"
    proof -
      have e: "bitlen p - (bitlen q - 1) = k + 1" by (simp add: k_def)
      have "(2::rat) powi (bitlen p) / 2 powi (bitlen q - 1) = 2 powi (bitlen p - (bitlen q - 1))"
        by (rule power_int_diff[symmetric]) simp
      then show ?thesis by (simp only: e)
    qed
    ultimately show ?thesis by (simp add: a pow2_powi)
  qed
  then show ?thesis
    by (auto simp add: binade_def pq k_def Let_def not_le)
qed

lemma pow2_mono: "i \<le> j \<Longrightarrow> pow2 i \<le> pow2 j"
  by (simp add: pow2_powi power_int_increasing)

lemma binade_unique: assumes "pow2 e \<le> a" "a < pow2 (e + 1)" shows "binade a = e"
proof -
  have a: "0 < a" using assms(1) pow2_pos[of e] by simp
  have 1: "pow2 (binade a) < pow2 (e + 1)" using binade_lower[OF a] assms(2) by simp
  have 2: "pow2 e < pow2 (binade a + 1)" using binade_upper[OF a] assms(1) by simp
  have "binade a < e + 1" using 1 pow2_mono[of "e + 1" "binade a"] by (cases "binade a < e + 1") auto
  moreover have "e < binade a + 1" using 2 pow2_mono[of "binade a + 1" e] by (cases "e < binade a + 1") auto
  ultimately show ?thesis by simp
qed

lemma round_half_even_of_int: "round_half_even (of_int n) = n"
  by (simp add: round_half_even_def)

lemma round_double_int:
  assumes "x \<in> \<int>" "\<bar>x\<bar> \<le> 2 ^ 53" shows "round_double x = x"
proof (cases "x = 0")
  case True then show ?thesis by (simp add: round_double_def)
next
  case False
  define a where "a = \<bar>x\<bar>"
  have a: "0 < a" using False by (simp add: a_def)
  have "a \<in> \<int>" using assms(1) by (simp add: a_def)
  then obtain n where n: "a = of_int n" by (auto elim: Ints_cases)
  define e where "e = binade a"
  have "pow2 e \<le> 2 ^ 53" using binade_lower[OF a] assms(2) by (simp add: e_def a_def)
  then have e53: "e \<le> 53" using pow2_mono[of 54 e] by (cases "e \<le> 53") (auto simp: pow2_def)
  have "of_int (round_half_even (a / pow2 (e - 52))) * pow2 (e - 52) = a"
  proof (cases "e \<le> 52")
    case True
    then have u: "pow2 (e - 52) = 1 / 2 ^ nat (52 - e)"
      by (cases "e = 52") (auto simp: pow2_def)
    have "a / pow2 (e - 52) = of_int (n * 2 ^ nat (52 - e))" by (simp add: u n)
    then have "round_half_even (a / pow2 (e - 52)) = n * 2 ^ nat (52 - e)"
      by (simp only: round_half_even_of_int)
    then show ?thesis by (simp add: u n)
  next
    case False
    then have e: "e = 53" using e53 by simp
    have "pow2 53 \<le> a" using binade_lower[OF a] by (simp add: e_def[symmetric] e)
    then have a53: "a = 2 ^ 53" using assms(2) by (simp add: a_def pow2_def)
    have "a / pow2 (e - 52) = of_int (2 ^ 52)" by (simp add: e pow2_def a53)
    then have "round_half_even (a / pow2 (e - 52)) = 2 ^ 52"
      by (simp only: round_half_even_of_int)
    then show ?thesis by (simp add: e pow2_def a53)
  qed
  then have "round_double x = sgn x * a"
    using False by (simp add: round_double_def Let_def a_def[symmetric] e_def[symmetric] mult.assoc)
  then show ?thesis by (simp add: a_def mult_sgn_abs)
qed

section \<open>The example contract\<close>

lemma example_dates:
  "all_dates example_contract =
     [(2023, 5, 1), (2023, 5, 2), (2023, 5, 3), (2023, 11, 1), (2023, 11, 2), (2023, 11, 3)]"
  by (simp add: all_dates_def example_contract_def sorted_list_of_set_sort_remdups
      less_eq_prod_def less_prod_def)

lemma example_month_ends:
  "date_range_M (2023, 5, 1) (2023, 11, 3) =
     [(2023, 5, 31), (2023, 6, 30), (2023, 7, 31), (2023, 8, 31), (2023, 9, 30), (2023, 10, 31)]"
  by code_simp

lemma example_products:
  "round_double (1000000 * round_double (21 / 10)) = 2100000"
  "round_double (1000000 * round_double (11 / 5)) = 2200000"
  "round_double (1000000 * round_double (31 / 10)) = 3100000"
  "round_double (1000000 * round_double (16 / 5)) = 3200000"
  by code_simp+

lemma example_loop:
  "run_dates round_double example_contract (all_dates example_contract) initial_state =
     Inr \<lparr>volume = 0, total_purchase_cost = 6300000, total_sales_revenue = 9300000,
          total_injection_withdrawal_cost = 60000, total_transportation_cost = 300000,
          printed = []\<rparr>"
  unfolding example_dates
  by (simp add: visit_def inject_def withdraw_def example_contract_def initial_state_def
      round_double_int example_products)

lemma example_duration: "storage_duration example_contract = Inr 6"
  using example_month_ends by (simp add: storage_duration_def example_contract_def)

text \<open>
  C1.  The call at the end of the source file (three injections in May 2023 at
  prices 2.0, 2.1, 2.2, three withdrawals in November 2023 at prices 3.0, 3.1, 3.2,
  rates of 1,000,000, capacity 3,000,000, storage cost 100,000, operation cost
  10,000 and transport cost 50,000), computed in double precision, returns exactly
  2,040,000: revenue 9,300,000, purchases 6,300,000, six month ends of storage
  600,000, operation costs 60,000, transport 300,000.
\<close>

theorem C1_example_contract_value:
  "price_storage_contract round_double example_contract = Inr 2040000 \<and>
   run_contract round_double example_contract =
     Inr \<lparr>final = \<lparr>volume = 0, total_purchase_cost = 6300000, total_sales_revenue = 9300000,
                      total_injection_withdrawal_cost = 60000,
                      total_transportation_cost = 300000, printed = []\<rparr>,
          total_storage_cost = 600000, contract_value = 2040000\<rparr>"
  apply (simp only: price_storage_contract_def run_contract_def example_loop example_duration)
  apply (simp add: settle_def example_contract_def round_double_int)
  done

section \<open>The date loop\<close>

lemma index_of_less: "index_of x xs = Some i \<Longrightarrow> i < length xs"
  by (induction xs arbitrary: i) (auto split: if_splits)

lemma index_of_in_set: "x \<in> set xs \<Longrightarrow> \<exists>i. index_of x xs = Some i"
  by (induction xs) auto

lemma index_of_None: "index_of x xs = None \<longleftrightarrow> x \<notin> set xs"
  by (induction xs) auto

lemma index_of_first:
  "index_of x xs = Some i \<longleftrightarrow> i < length xs \<and> xs ! i = x \<and> (\<forall>j<i. xs ! j \<noteq> x)"
proof (induction xs arbitrary: i)
  case Nil
  then show ?case by simp
next
  case (Cons y ys)
  show ?case
  proof (cases "x = y")
    case True
    then show ?thesis by (cases i) auto
  next
    case False
    show ?thesis
    proof (cases i)
      case 0
      with False show ?thesis by auto
    next
      case (Suc k)
      have "(\<forall>j<Suc k. (y # ys) ! j \<noteq> x) \<longleftrightarrow> (\<forall>j<k. ys ! j \<noteq> x)"
        using False by (auto simp: less_Suc_eq_0_disj)
      with False Suc Cons.IH[of k] show ?thesis by auto
    qed
  qed
qed

lemma inject_ok:
  assumes "length (purchase_prices c) = length (injection_dates c)"
  shows "\<exists>s'. inject rnd c d s = Inr s'"
  using assms by (auto simp: inject_def dest: index_of_less split: option.splits)

lemma withdraw_ok:
  assumes "length (sale_prices c) = length (withdrawal_dates c)"
  shows "\<exists>s'. withdraw rnd c d s = Inr s'"
  using assms by (auto simp: withdraw_def dest: index_of_less split: option.splits)

lemma visit_ok:
  assumes "length (purchase_prices c) = length (injection_dates c)"
    and "length (sale_prices c) = length (withdrawal_dates c)"
  shows "\<exists>s'. visit rnd c d s = Inr s'"
proof -
  obtain s1 where 1: "inject rnd c d s = Inr s1" using inject_ok[OF assms(1)] by blast
  obtain s2 where 2: "withdraw rnd c d s1 = Inr s2" using withdraw_ok[OF assms(2)] by blast
  show ?thesis by (simp add: visit_def 1 2)
qed

lemma run_dates_ok:
  assumes "length (purchase_prices c) = length (injection_dates c)"
    and "length (sale_prices c) = length (withdrawal_dates c)"
  shows "\<exists>s'. run_dates rnd c ds s = Inr s'"
proof (induction ds arbitrary: s)
  case Nil
  then show ?case by simp
next
  case (Cons d ds)
  obtain s1 where "visit rnd c d s = Inr s1" using visit_ok[OF assms] by blast
  with Cons.IH[of s1] show ?case by simp
qed

lemma inject_cases:
  assumes "index_of d (injection_dates c) = Some i" "i < length (purchase_prices c)"
  shows "inject rnd c d s =
     (if volume s \<le> rnd (max_storage c - injection_rate c)
      then Inr (s\<lparr>volume := rnd (volume s + injection_rate c),
                   total_purchase_cost :=
                     rnd (total_purchase_cost s + rnd (injection_rate c * purchase_prices c ! i)),
                   total_injection_withdrawal_cost :=
                     rnd (total_injection_withdrawal_cost s + injection_withdrawal_cost c),
                   total_transportation_cost :=
                     rnd (total_transportation_cost s + transportation_cost c)\<rparr>)
      else Inr (s\<lparr>printed := printed s @ [Insufficient_storage_space d]\<rparr>))"
  using assms by (simp add: inject_def)

lemma withdraw_cases:
  assumes "index_of d (withdrawal_dates c) = Some i" "i < length (sale_prices c)"
  shows "withdraw rnd c d s =
     (if withdrawal_rate c \<le> volume s
      then Inr (s\<lparr>volume := rnd (volume s - withdrawal_rate c),
                   total_sales_revenue :=
                     rnd (total_sales_revenue s + rnd (withdrawal_rate c * sale_prices c ! i)),
                   total_injection_withdrawal_cost :=
                     rnd (total_injection_withdrawal_cost s + injection_withdrawal_cost c),
                   total_transportation_cost :=
                     rnd (total_transportation_cost s + transportation_cost c)\<rparr>)
      else Inr (s\<lparr>printed := printed s @ [Insufficient_gas_stored d]\<rparr>))"
  using assms by (simp add: withdraw_def)

lemma printed_differs:
  "printed t = printed s \<Longrightarrow> s\<lparr>printed := printed s @ [u]\<rparr> \<noteq> t"
  by (cases s, cases t) auto

lemma inject_no_index: "index_of d (injection_dates c) = None \<Longrightarrow> inject rnd c d s = Inr s"
  by (simp add: inject_def)

lemma withdraw_no_index: "index_of d (withdrawal_dates c) = None \<Longrightarrow> withdraw rnd c d s = Inr s"
  by (simp add: withdraw_def)

lemma visit_steps:
  assumes "length (purchase_prices c) = length (injection_dates c)"
    and "length (sale_prices c) = length (withdrawal_dates c)"
  shows "\<exists>s1 s2. inject rnd c d s = Inr s1 \<and> withdraw rnd c d s1 = Inr s2 \<and>
           visit rnd c d s = Inr s2 \<and> run_dates rnd c (d # ds) s = run_dates rnd c ds s2"
proof -
  obtain s1 where 1: "inject rnd c d s = Inr s1" using inject_ok[OF assms(1)] by blast
  obtain s2 where 2: "withdraw rnd c d s1 = Inr s2" using withdraw_ok[OF assms(2)] by blast
  have "visit rnd c d s = Inr s2" by (simp add: visit_def 1 2)
  then show ?thesis using 1 2 by simp
qed

text \<open>
  C5.  For price lists as long as their schedules: on a date whose first occurrence
  in the injection schedule is at position \<open>i\<close>, the injection is carried out (the
  rate is added to the volume, the purchase cost rate times price \<open>i\<close>, one operation
  cost and one transport cost are accrued) if and only if
  \<open>volume \<le> max_storage - injection_rate\<close>, as the source computes it; otherwise nothing
  changes but for the printed message naming the date.  The same holds for a
  withdrawal with the guard \<open>withdrawal_rate \<le> volume\<close>.  On a date that a schedule
  does not name, its check leaves the state as it is.  No visit raises: the visit of
  a date is the injection check on the current state followed by the withdrawal
  check on the state the injection check leaves, and the loop goes on with the
  remaining dates from the state the withdrawal check leaves, whether or not a guard
  has failed; after the last date the loop returns the state it has reached.
\<close>

theorem C5_guarded_events:
  assumes "length (purchase_prices c) = length (injection_dates c)"
    and "length (sale_prices c) = length (withdrawal_dates c)"
  shows
    "(\<forall>i. index_of d (injection_dates c) = Some i \<longrightarrow>
        ((inject rnd c d s =
            Inr (s\<lparr>volume := rnd (volume s + injection_rate c),
                   total_purchase_cost :=
                     rnd (total_purchase_cost s + rnd (injection_rate c * purchase_prices c ! i)),
                   total_injection_withdrawal_cost :=
                     rnd (total_injection_withdrawal_cost s + injection_withdrawal_cost c),
                   total_transportation_cost :=
                     rnd (total_transportation_cost s + transportation_cost c)\<rparr>))
           \<longleftrightarrow> volume s \<le> rnd (max_storage c - injection_rate c)) \<and>
        (\<not> volume s \<le> rnd (max_storage c - injection_rate c) \<longrightarrow>
           inject rnd c d s = Inr (s\<lparr>printed := printed s @ [Insufficient_storage_space d]\<rparr>))) \<and>
     (\<forall>i. index_of d (withdrawal_dates c) = Some i \<longrightarrow>
        ((withdraw rnd c d s =
            Inr (s\<lparr>volume := rnd (volume s - withdrawal_rate c),
                   total_sales_revenue :=
                     rnd (total_sales_revenue s + rnd (withdrawal_rate c * sale_prices c ! i)),
                   total_injection_withdrawal_cost :=
                     rnd (total_injection_withdrawal_cost s + injection_withdrawal_cost c),
                   total_transportation_cost :=
                     rnd (total_transportation_cost s + transportation_cost c)\<rparr>))
           \<longleftrightarrow> withdrawal_rate c \<le> volume s) \<and>
        (\<not> withdrawal_rate c \<le> volume s \<longrightarrow>
           withdraw rnd c d s = Inr (s\<lparr>printed := printed s @ [Insufficient_gas_stored d]\<rparr>))) \<and>
     (\<exists>s'. visit rnd c d s = Inr s' \<and> run_dates rnd c (d # ds) s = run_dates rnd c ds s') \<and>
     (\<exists>s'. run_dates rnd c ds s = Inr s') \<and>
     (index_of d (injection_dates c) = None \<longrightarrow> inject rnd c d s = Inr s) \<and>
     (index_of d (withdrawal_dates c) = None \<longrightarrow> withdraw rnd c d s = Inr s) \<and>
     (\<exists>s1 s2. inject rnd c d s = Inr s1 \<and> withdraw rnd c d s1 = Inr s2 \<and>
        visit rnd c d s = Inr s2 \<and> run_dates rnd c (d # ds) s = run_dates rnd c ds s2) \<and>
     run_dates rnd c [] s = Inr s"
proof -
  have inj: "\<And>i. index_of d (injection_dates c) = Some i \<Longrightarrow> i < length (purchase_prices c)"
    using assms(1) index_of_less by fastforce
  have wd: "\<And>i. index_of d (withdrawal_dates c) = Some i \<Longrightarrow> i < length (sale_prices c)"
    using assms(2) index_of_less by fastforce
  have 1: "\<exists>s'. run_dates rnd c ds s = Inr s'" by (rule run_dates_ok[OF assms])
  obtain s1 where "visit rnd c d s = Inr s1" using visit_ok[OF assms] by blast
  then have 2: "\<exists>s'. visit rnd c d s = Inr s' \<and> run_dates rnd c (d # ds) s = run_dates rnd c ds s'"
    by simp
  have g: "(\<forall>i. index_of d (injection_dates c) = Some i \<longrightarrow>
        ((inject rnd c d s =
            Inr (s\<lparr>volume := rnd (volume s + injection_rate c),
                   total_purchase_cost :=
                     rnd (total_purchase_cost s + rnd (injection_rate c * purchase_prices c ! i)),
                   total_injection_withdrawal_cost :=
                     rnd (total_injection_withdrawal_cost s + injection_withdrawal_cost c),
                   total_transportation_cost :=
                     rnd (total_transportation_cost s + transportation_cost c)\<rparr>))
           \<longleftrightarrow> volume s \<le> rnd (max_storage c - injection_rate c)) \<and>
        (\<not> volume s \<le> rnd (max_storage c - injection_rate c) \<longrightarrow>
           inject rnd c d s = Inr (s\<lparr>printed := printed s @ [Insufficient_storage_space d]\<rparr>))) \<and>
     (\<forall>i. index_of d (withdrawal_dates c) = Some i \<longrightarrow>
        ((withdraw rnd c d s =
            Inr (s\<lparr>volume := rnd (volume s - withdrawal_rate c),
                   total_sales_revenue :=
                     rnd (total_sales_revenue s + rnd (withdrawal_rate c * sale_prices c ! i)),
                   total_injection_withdrawal_cost :=
                     rnd (total_injection_withdrawal_cost s + injection_withdrawal_cost c),
                   total_transportation_cost :=
                     rnd (total_transportation_cost s + transportation_cost c)\<rparr>))
           \<longleftrightarrow> withdrawal_rate c \<le> volume s) \<and>
        (\<not> withdrawal_rate c \<le> volume s \<longrightarrow>
           withdraw rnd c d s = Inr (s\<lparr>printed := printed s @ [Insufficient_gas_stored d]\<rparr>)))"
    by (auto simp: inject_cases[OF _ inj] withdraw_cases[OF _ wd] printed_differs)
  have 3: "run_dates rnd c [] s = Inr s" by simp
  show ?thesis
    using g 1 2 3 inject_no_index[of d c rnd s] withdraw_no_index[of d c rnd s]
      visit_steps[OF assms, of rnd d s ds]
    by blast
qed

theorem C5_guarded_events_witness:
  "inject round_double example_contract (2023, 5, 1) initial_state =
     Inr (initial_state\<lparr>volume := 1000000, total_purchase_cost := 2000000,
            total_injection_withdrawal_cost := 10000, total_transportation_cost := 50000\<rparr>) \<and>
   inject round_double example_contract (2023, 5, 1) (initial_state\<lparr>volume := 2500000\<rparr>) =
     Inr (initial_state\<lparr>volume := 2500000, printed := [Insufficient_storage_space (2023, 5, 1)]\<rparr>) \<and>
   withdraw round_double example_contract (2023, 11, 2) (initial_state\<lparr>volume := 2500000\<rparr>) =
     Inr (initial_state\<lparr>volume := 1500000, total_sales_revenue := 3100000,
            total_injection_withdrawal_cost := 10000, total_transportation_cost := 50000\<rparr>) \<and>
   withdraw round_double example_contract (2023, 11, 2) initial_state =
     Inr (initial_state\<lparr>printed := [Insufficient_gas_stored (2023, 11, 2)]\<rparr>) \<and>
   (\<exists>s'. run_dates round_double example_contract [(2023, 5, 1), (2023, 11, 2)] initial_state = Inr s') \<and>
   run_dates round_double example_contract [(2023, 5, 1), (2023, 11, 2)]
       (initial_state\<lparr>volume := 2500000\<rparr>) =
     Inr (initial_state\<lparr>volume := 1500000, total_sales_revenue := 3100000,
            total_injection_withdrawal_cost := 10000, total_transportation_cost := 50000,
            printed := [Insufficient_storage_space (2023, 5, 1)]\<rparr>)"
proof -
  define s0 where "s0 = initial_state\<lparr>volume := 2500000\<rparr>"
  define s1 where "s1 = s0\<lparr>printed := printed s0 @ [Insufficient_storage_space (2023, 5, 1)]\<rparr>"
  define s2 where "s2 = s1\<lparr>volume := round_double (volume s1 - withdrawal_rate example_contract),
       total_sales_revenue := round_double (total_sales_revenue s1
           + round_double (withdrawal_rate example_contract * sale_prices example_contract ! 1)),
       total_injection_withdrawal_cost := round_double (total_injection_withdrawal_cost s1
           + injection_withdrawal_cost example_contract),
       total_transportation_cost := round_double (total_transportation_cost s1
           + transportation_cost example_contract)\<rparr>"
  have len: "length (purchase_prices example_contract) = length (injection_dates example_contract)"
    "length (sale_prices example_contract) = length (withdrawal_dates example_contract)"
    by (simp_all add: example_contract_def)
  have i51: "index_of (2023, 5, 1) (injection_dates example_contract) = Some 0"
    and w51: "index_of (2023, 5, 1) (withdrawal_dates example_contract) = None"
    and i112: "index_of (2023, 11, 2) (injection_dates example_contract) = None"
    and w112: "index_of (2023, 11, 2) (withdrawal_dates example_contract) = Some 1"
    by (simp_all add: example_contract_def)
  have g0: "\<not> volume s0 \<le> round_double (max_storage example_contract - injection_rate example_contract)"
    by (simp add: s0_def initial_state_def example_contract_def round_double_int)
  have g1: "withdrawal_rate example_contract \<le> volume s1"
    by (simp add: s1_def s0_def initial_state_def example_contract_def)
  note A = C5_guarded_events[OF len, where rnd = round_double and d = "(2023, 5, 1)" and s = s0
      and ds = "[(2023, 11, 2)]"]
  note A' = C5_guarded_events[OF len, where rnd = round_double and d = "(2023, 5, 1)" and s = s1
      and ds = "[]"]
  note B = C5_guarded_events[OF len, where rnd = round_double and d = "(2023, 11, 2)" and s = s1
      and ds = "[]"]
  note B' = C5_guarded_events[OF len, where rnd = round_double and d = "(2023, 11, 2)" and s = s2
      and ds = "[]"]
  have a1: "inject round_double example_contract (2023, 5, 1) s0 = Inr s1"
    using A i51 g0 unfolding s1_def by blast
  have a2: "withdraw round_double example_contract (2023, 5, 1) s1 = Inr s1"
    using A' w51 by blast
  obtain t1 t2 where t: "inject round_double example_contract (2023, 5, 1) s0 = Inr t1"
    "withdraw round_double example_contract (2023, 5, 1) t1 = Inr t2"
    "run_dates round_double example_contract ((2023, 5, 1) # [(2023, 11, 2)]) s0 =
       run_dates round_double example_contract [(2023, 11, 2)] t2"
    using A by blast
  have r1: "run_dates round_double example_contract [(2023, 5, 1), (2023, 11, 2)] s0 =
       run_dates round_double example_contract [(2023, 11, 2)] s1"
    using t a1 a2 by simp
  have b1: "inject round_double example_contract (2023, 11, 2) s1 = Inr s1"
    using B i112 by blast
  have b2: "withdraw round_double example_contract (2023, 11, 2) s1 = Inr s2"
    using B w112 g1 unfolding s2_def by blast
  obtain u1 u2 where u: "inject round_double example_contract (2023, 11, 2) s1 = Inr u1"
    "withdraw round_double example_contract (2023, 11, 2) u1 = Inr u2"
    "run_dates round_double example_contract ((2023, 11, 2) # []) s1 =
       run_dates round_double example_contract [] u2"
    using B by blast
  have r2: "run_dates round_double example_contract [(2023, 11, 2)] s1 =
       run_dates round_double example_contract [] s2"
    using u b1 b2 by simp
  have r3: "run_dates round_double example_contract [] s2 = Inr s2"
    using B' by blast
  have v: "s2 = initial_state\<lparr>volume := 1500000, total_sales_revenue := 3100000,
            total_injection_withdrawal_cost := 10000, total_transportation_cost := 50000,
            printed := [Insufficient_storage_space (2023, 5, 1)]\<rparr>"
    by (simp add: s2_def s1_def s0_def example_contract_def initial_state_def round_double_int
        example_products)
  have new: "run_dates round_double example_contract [(2023, 5, 1), (2023, 11, 2)]
       (initial_state\<lparr>volume := 2500000\<rparr>) =
     Inr (initial_state\<lparr>volume := 1500000, total_sales_revenue := 3100000,
            total_injection_withdrawal_cost := 10000, total_transportation_cost := 50000,
            printed := [Insufficient_storage_space (2023, 5, 1)]\<rparr>)"
    using r1 r2 r3 unfolding v unfolding s0_def by simp
  have old: "inject round_double example_contract (2023, 5, 1) initial_state =
     Inr (initial_state\<lparr>volume := 1000000, total_purchase_cost := 2000000,
            total_injection_withdrawal_cost := 10000, total_transportation_cost := 50000\<rparr>) \<and>
   inject round_double example_contract (2023, 5, 1) (initial_state\<lparr>volume := 2500000\<rparr>) =
     Inr (initial_state\<lparr>volume := 2500000, printed := [Insufficient_storage_space (2023, 5, 1)]\<rparr>) \<and>
   withdraw round_double example_contract (2023, 11, 2) (initial_state\<lparr>volume := 2500000\<rparr>) =
     Inr (initial_state\<lparr>volume := 1500000, total_sales_revenue := 3100000,
            total_injection_withdrawal_cost := 10000, total_transportation_cost := 50000\<rparr>) \<and>
   withdraw round_double example_contract (2023, 11, 2) initial_state =
     Inr (initial_state\<lparr>printed := [Insufficient_gas_stored (2023, 11, 2)]\<rparr>) \<and>
   (\<exists>s'. run_dates round_double example_contract [(2023, 5, 1), (2023, 11, 2)] initial_state = Inr s')"
    using C5_guarded_events[where c = example_contract and rnd = round_double
      and d = "(2023, 5, 1)" and s = initial_state and ds = "[(2023, 5, 1), (2023, 11, 2)]"]
    C5_guarded_events[where c = example_contract and rnd = round_double
      and d = "(2023, 5, 1)" and s = "initial_state\<lparr>volume := 2500000\<rparr>" and ds = "[]"]
    C5_guarded_events[where c = example_contract and rnd = round_double
      and d = "(2023, 11, 2)" and s = "initial_state\<lparr>volume := 2500000\<rparr>" and ds = "[]"]
    C5_guarded_events[where c = example_contract and rnd = round_double
      and d = "(2023, 11, 2)" and s = initial_state and ds = "[]"]
    by (simp add: example_contract_def initial_state_def round_double_int example_products)
  show ?thesis using old new by blast
qed

section \<open>The order of the visits\<close>

lemma all_dates_sorted: "sorted_wrt (<) (all_dates c)"
  by (simp add: all_dates_def)

lemma all_dates_set: "set (all_dates c) = set (injection_dates c) \<union> set (withdrawal_dates c)"
  by (simp add: all_dates_def)

lemma all_dates_sort:
  "all_dates c = sort (remdups (injection_dates c @ withdrawal_dates c))"
  unfolding all_dates_def set_append[symmetric] by (rule sorted_list_of_set_sort_remdups)

lemma all_dates_distinct: "distinct (all_dates c)"
  by (simp add: all_dates_def)

lemma foldl_visit_Inl: "foldl (visit_result rnd c) (Inl e) ds = Inl e"
  by (induction ds) (simp_all add: visit_result_def)

lemma run_dates_foldl: "run_dates rnd c ds s = foldl (visit_result rnd c) (Inr s) ds"
proof (induction ds arbitrary: s)
  case Nil
  then show ?case by simp
next
  case (Cons d ds)
  show ?case
  proof (cases "visit rnd c d s")
    case (Inl e)
    then have "visit_result rnd c (Inr s) d = Inl e"
      by (simp add: visit_result_def visit_def)
    with Inl show ?thesis by (simp add: foldl_visit_Inl)
  next
    case (Inr s')
    then have "visit_result rnd c (Inr s) d = Inr s'"
      by (simp add: visit_result_def visit_def)
    with Inr Cons.IH[of s'] show ?thesis by simp
  qed
qed

lemma inject_first_occurrence:
  assumes "d \<in> set (injection_dates c)"
  shows "\<exists>i < length (injection_dates c). injection_dates c ! i = d \<and>
         (\<forall>j < i. injection_dates c ! j \<noteq> d) \<and>
         inject rnd c d s =
           (if volume s \<le> rnd (max_storage c - injection_rate c)
            then (if i < length (purchase_prices c)
                  then Inr (s\<lparr>volume := rnd (volume s + injection_rate c),
                     total_purchase_cost :=
                       rnd (total_purchase_cost s + rnd (injection_rate c * purchase_prices c ! i)),
                     total_injection_withdrawal_cost :=
                       rnd (total_injection_withdrawal_cost s + injection_withdrawal_cost c),
                     total_transportation_cost :=
                       rnd (total_transportation_cost s + transportation_cost c)\<rparr>)
                  else Inl IndexError)
            else Inr (s\<lparr>printed := printed s @ [Insufficient_storage_space d]\<rparr>))"
proof -
  obtain i where i: "index_of d (injection_dates c) = Some i"
    using index_of_in_set[OF assms] by blast
  then have "i < length (injection_dates c) \<and> injection_dates c ! i = d \<and>
      (\<forall>j < i. injection_dates c ! j \<noteq> d)"
    using index_of_first[of d _ i] by blast
  moreover have "inject rnd c d s =
           (if volume s \<le> rnd (max_storage c - injection_rate c)
            then (if i < length (purchase_prices c)
                  then Inr (s\<lparr>volume := rnd (volume s + injection_rate c),
                     total_purchase_cost :=
                       rnd (total_purchase_cost s + rnd (injection_rate c * purchase_prices c ! i)),
                     total_injection_withdrawal_cost :=
                       rnd (total_injection_withdrawal_cost s + injection_withdrawal_cost c),
                     total_transportation_cost :=
                       rnd (total_transportation_cost s + transportation_cost c)\<rparr>)
                  else Inl IndexError)
            else Inr (s\<lparr>printed := printed s @ [Insufficient_storage_space d]\<rparr>))"
    using i by (simp add: inject_def)
  ultimately show ?thesis by blast
qed

lemma withdraw_first_occurrence:
  assumes "d \<in> set (withdrawal_dates c)"
  shows "\<exists>i < length (withdrawal_dates c). withdrawal_dates c ! i = d \<and>
         (\<forall>j < i. withdrawal_dates c ! j \<noteq> d) \<and>
         withdraw rnd c d s =
           (if withdrawal_rate c \<le> volume s
            then (if i < length (sale_prices c)
                  then Inr (s\<lparr>volume := rnd (volume s - withdrawal_rate c),
                     total_sales_revenue :=
                       rnd (total_sales_revenue s + rnd (withdrawal_rate c * sale_prices c ! i)),
                     total_injection_withdrawal_cost :=
                       rnd (total_injection_withdrawal_cost s + injection_withdrawal_cost c),
                     total_transportation_cost :=
                       rnd (total_transportation_cost s + transportation_cost c)\<rparr>)
                  else Inl IndexError)
            else Inr (s\<lparr>printed := printed s @ [Insufficient_gas_stored d]\<rparr>))"
proof -
  obtain i where i: "index_of d (withdrawal_dates c) = Some i"
    using index_of_in_set[OF assms] by blast
  then have "i < length (withdrawal_dates c) \<and> withdrawal_dates c ! i = d \<and>
      (\<forall>j < i. withdrawal_dates c ! j \<noteq> d)"
    using index_of_first[of d _ i] by blast
  moreover have "withdraw rnd c d s =
           (if withdrawal_rate c \<le> volume s
            then (if i < length (sale_prices c)
                  then Inr (s\<lparr>volume := rnd (volume s - withdrawal_rate c),
                     total_sales_revenue :=
                       rnd (total_sales_revenue s + rnd (withdrawal_rate c * sale_prices c ! i)),
                     total_injection_withdrawal_cost :=
                       rnd (total_injection_withdrawal_cost s + injection_withdrawal_cost c),
                     total_transportation_cost :=
                       rnd (total_transportation_cost s + transportation_cost c)\<rparr>)
                  else Inl IndexError)
            else Inr (s\<lparr>printed := printed s @ [Insufficient_gas_stored d]\<rparr>))"
    using i by (simp add: withdraw_def)
  ultimately show ?thesis by blast
qed

lemma inject_unscheduled: "d \<notin> set (injection_dates c) \<Longrightarrow> inject rnd c d s = Inr s"
  using index_of_None[of d "injection_dates c"] by (simp add: inject_def)

lemma withdraw_unscheduled: "d \<notin> set (withdrawal_dates c) \<Longrightarrow> withdraw rnd c d s = Inr s"
  using index_of_None[of d "withdrawal_dates c"] by (simp add: withdraw_def)

text \<open>
  C10.  The loop visits the dates of the two schedules in strictly ascending order,
  each once.  One visit is the injection check followed by the withdrawal check on
  the state the injection check left.  For a date that occurs in a schedule (however
  many times), the check is made once and reads the price at the position of the
  date's first occurrence.
\<close>

theorem C10_visit_order:
  "sorted_wrt (<) (all_dates c) \<and> distinct (all_dates c) \<and>
   set (all_dates c) = set (injection_dates c) \<union> set (withdrawal_dates c) \<and>
   run_dates rnd c (all_dates c) initial_state =
     foldl (\<lambda>r d. case r of Inl e \<Rightarrow> Inl e
                   | Inr s \<Rightarrow> (case inject rnd c d s of Inl e \<Rightarrow> Inl e
                                | Inr s' \<Rightarrow> withdraw rnd c d s'))
       (Inr initial_state) (all_dates c) \<and>
   (\<forall>d s. d \<in> set (injection_dates c) \<longrightarrow>
      (\<exists>i < length (injection_dates c). injection_dates c ! i = d \<and>
         (\<forall>j < i. injection_dates c ! j \<noteq> d) \<and>
         inject rnd c d s =
           (if volume s \<le> rnd (max_storage c - injection_rate c)
            then (if i < length (purchase_prices c)
                  then Inr (s\<lparr>volume := rnd (volume s + injection_rate c),
                     total_purchase_cost :=
                       rnd (total_purchase_cost s + rnd (injection_rate c * purchase_prices c ! i)),
                     total_injection_withdrawal_cost :=
                       rnd (total_injection_withdrawal_cost s + injection_withdrawal_cost c),
                     total_transportation_cost :=
                       rnd (total_transportation_cost s + transportation_cost c)\<rparr>)
                  else Inl IndexError)
            else Inr (s\<lparr>printed := printed s @ [Insufficient_storage_space d]\<rparr>)))) \<and>
   (\<forall>d s. d \<in> set (withdrawal_dates c) \<longrightarrow>
      (\<exists>i < length (withdrawal_dates c). withdrawal_dates c ! i = d \<and>
         (\<forall>j < i. withdrawal_dates c ! j \<noteq> d) \<and>
         withdraw rnd c d s =
           (if withdrawal_rate c \<le> volume s
            then (if i < length (sale_prices c)
                  then Inr (s\<lparr>volume := rnd (volume s - withdrawal_rate c),
                     total_sales_revenue :=
                       rnd (total_sales_revenue s + rnd (withdrawal_rate c * sale_prices c ! i)),
                     total_injection_withdrawal_cost :=
                       rnd (total_injection_withdrawal_cost s + injection_withdrawal_cost c),
                     total_transportation_cost :=
                       rnd (total_transportation_cost s + transportation_cost c)\<rparr>)
                  else Inl IndexError)
            else Inr (s\<lparr>printed := printed s @ [Insufficient_gas_stored d]\<rparr>)))) \<and>
   (\<forall>d s. d \<notin> set (injection_dates c) \<longrightarrow> inject rnd c d s = Inr s) \<and>
   (\<forall>d s. d \<notin> set (withdrawal_dates c) \<longrightarrow> withdraw rnd c d s = Inr s)"
  using all_dates_sorted[of c] all_dates_distinct[of c] all_dates_set[of c]
    run_dates_foldl[of rnd c "all_dates c" initial_state]
    inject_first_occurrence[of _ c rnd] withdraw_first_occurrence[of _ c rnd]
    inject_unscheduled[of _ c rnd] withdraw_unscheduled[of _ c rnd]
  unfolding visit_result_def by blast

theorem C10_visit_order_witness:
  "all_dates duplicate_contract = [(2023, 5, 1), (2023, 5, 2)] \<and>
   inject exact duplicate_contract (2023, 5, 2) initial_state =
     Inr (initial_state\<lparr>volume := 10, total_purchase_cost := 20,
            total_injection_withdrawal_cost := 1, total_transportation_cost := 1\<rparr>) \<and>
   withdraw exact duplicate_contract (2023, 5, 1) initial_state = Inr initial_state \<and>
   run_dates exact duplicate_contract (all_dates duplicate_contract) initial_state =
     Inr (initial_state\<lparr>volume := 10, total_purchase_cost := 70, total_sales_revenue := 30,
            total_injection_withdrawal_cost := 3, total_transportation_cost := 3\<rparr>)"
proof -
  have d: "all_dates duplicate_contract = [(2023, 5, 1), (2023, 5, 2)]"
    by (simp add: all_dates_sort duplicate_contract_def less_eq_prod_def less_prod_def)
  show ?thesis
    using C10_visit_order[of duplicate_contract exact]
    unfolding d
    by (simp add: duplicate_contract_def initial_state_def exact_def inject_def withdraw_def)
qed

section \<open>Empty schedules\<close>

lemma storage_duration_no_withdrawals:
  "withdrawal_dates c = [] \<Longrightarrow> storage_duration c = Inl ValueError"
  by (simp add: storage_duration_def split: option.splits)

lemma run_dates_no_withdrawals:
  assumes "withdrawal_dates c = []"
    and "length (purchase_prices c) = length (injection_dates c)"
  shows "\<exists>s'. run_dates rnd c ds s = Inr s'"
proof (induction ds arbitrary: s)
  case Nil
  then show ?case by simp
next
  case (Cons d ds)
  obtain s1 where 1: "inject rnd c d s = Inr s1" using inject_ok[OF assms(2)] by blast
  have "withdraw rnd c d s1 = Inr s1" using assms(1) by (simp add: withdraw_def)
  with 1 have "visit rnd c d s = Inr s1" by (simp add: visit_def)
  with Cons.IH[of s1] show ?case by simp
qed

lemma run_contract_no_withdrawals:
  assumes "withdrawal_dates c = []"
    and "length (purchase_prices c) = length (injection_dates c)"
  shows "run_contract rnd c = Inl ValueError"
proof -
  obtain s where "run_dates rnd c (all_dates c) initial_state = Inr s"
    using run_dates_no_withdrawals[OF assms] by blast
  then show ?thesis
    using storage_duration_no_withdrawals[OF assms(1)] by (simp add: run_contract_def)
qed

text \<open>
  C8, as the code has it.  With an empty withdrawal schedule the function has no
  branch for the month count: \<^verbatim>\<open>withdrawal_dates.max()\<close> is \<^verbatim>\<open>NaT\<close>, the date loop runs
  as usual, and then \<^verbatim>\<open>pd.date_range\<close> raises \<^verbatim>\<open>ValueError\<close>; no value is returned and
  the storage duration is never taken as zero.
\<close>

theorem C8_empty_withdrawals_raise:
  assumes "withdrawal_dates c = []"
    and "length (purchase_prices c) = length (injection_dates c)"
  shows "dates_max (withdrawal_dates c) = None \<and>
         storage_duration c = Inl ValueError \<and>
         (\<exists>s. run_dates rnd c (all_dates c) initial_state = Inr s) \<and>
         run_contract rnd c = Inl ValueError \<and>
         price_storage_contract rnd c = Inl ValueError"
  using assms storage_duration_no_withdrawals[OF assms(1)] run_dates_no_withdrawals[OF assms]
    run_contract_no_withdrawals[OF assms]
  by (simp add: price_storage_contract_def)

theorem C8_empty_withdrawals_raise_witness:
  "price_storage_contract round_double no_withdrawals = Inl ValueError \<and>
   storage_duration no_withdrawals = Inl ValueError"
  using C8_empty_withdrawals_raise[of no_withdrawals round_double]
  by (simp add: no_withdrawals_def example_contract_def)

text \<open>
  C8, as the claim has it, fails: the example contract without its withdrawals
  returns no value; the call ends in the \<^verbatim>\<open>ValueError\<close> of \<^verbatim>\<open>pd.date_range\<close>.
\<close>

theorem C8_counterexample:
  "price_storage_contract round_double no_withdrawals = Inl ValueError \<and>
   storage_duration no_withdrawals = Inl ValueError \<and>
   dates_max (withdrawal_dates no_withdrawals) = None"
proof -
  have w: "withdrawal_dates no_withdrawals = []" by (simp add: no_withdrawals_def)
  have "run_contract round_double no_withdrawals = Inl ValueError"
    by (rule run_contract_no_withdrawals) (simp_all add: no_withdrawals_def example_contract_def)
  then show ?thesis
    using storage_duration_no_withdrawals[OF w] by (simp add: price_storage_contract_def w)
qed

section \<open>Month ends in an interval\<close>

lemma days_in_month_pos: "0 < days_in_month y m"
  by (simp add: days_in_month_def)

lemma valid_rollforward: "valid_date d \<Longrightarrow> valid_date (rollforward d)"
  by (cases d) (auto simp: days_in_month_pos Suc_leI)

lemma valid_next_month_end: "valid_date d \<Longrightarrow> valid_date (next_month_end d)"
  by (cases d) (auto simp: days_in_month_pos Suc_leI)

lemma is_month_end_rollforward: "is_month_end (rollforward d)"
  by (cases d) simp

lemma is_month_end_next: "is_month_end (next_month_end d)"
  by (cases d) simp

lemma month_end_le:
  "((y, m, days_in_month y m) \<le> (y', m', days_in_month y' m')) = (y < y' \<or> y = y' \<and> m \<le> m')"
  by (auto simp: less_eq_prod_def less_prod_def)

lemma month_end_less:
  "((y, m, days_in_month y m) < (y', m', days_in_month y' m')) = (y < y' \<or> y = y' \<and> m < m')"
  by (cases "m = m'"; cases "y = y'") (auto simp: less_eq_prod_def less_prod_def)

lemma date_le_month_end:
  "d \<le> days_in_month y m \<Longrightarrow>
   ((y, m, d) \<le> (y', m', days_in_month y' m')) = (y < y' \<or> y = y' \<and> m \<le> m')"
  by (auto simp: less_eq_prod_def less_prod_def)

lemma rollforward_le:
  assumes "valid_date s" "valid_date d" "is_month_end d"
  shows "rollforward s \<le> d \<longleftrightarrow> s \<le> d"
proof -
  obtain y m dd where s: "s = (y, m, dd)" by (cases s)
  obtain y' m' dd' where d: "d = (y', m', dd')" by (cases d)
  have dd': "dd' = days_in_month y' m'" using assms(3) d by simp
  have dd: "dd \<le> days_in_month y m" using assms(1) s by simp
  show ?thesis
    unfolding s d dd' rollforward.simps month_end_le date_le_month_end[OF dd] ..
qed

lemma next_month_end_le:
  assumes "valid_date c" "is_month_end c" "valid_date d" "is_month_end d"
  shows "next_month_end c \<le> d \<longleftrightarrow> c < d"
proof -
  obtain y m dd where c: "c = (y, m, dd)" by (cases c)
  obtain y' m' dd' where d: "d = (y', m', dd')" by (cases d)
  have dd': "dd' = days_in_month y' m'" using assms(4) d by simp
  have dd: "dd = days_in_month y m" using assms(2) c by simp
  have m: "1 \<le> m" "m \<le> 12" "1 \<le> m'" "m' \<le> 12" using assms(1,3) c d by simp_all
  have lt: "c < d \<longleftrightarrow> (y < y' \<or> y = y' \<and> m < m')"
    unfolding c d dd dd' by (rule month_end_less)
  show ?thesis
  proof (cases "12 \<le> m")
    case True
    then have "next_month_end c = (y + 1, 1, days_in_month (y + 1) 1)" by (simp add: c)
    then have "next_month_end c \<le> d \<longleftrightarrow> (y + 1 < y' \<or> y + 1 = y' \<and> 1 \<le> m')"
      unfolding d dd' by (simp only: month_end_le)
    then show ?thesis using lt m True by arith
  next
    case False
    then have "next_month_end c = (y, m + 1, days_in_month y (m + 1))" by (simp add: c)
    then have "next_month_end c \<le> d \<longleftrightarrow> (y < y' \<or> y = y' \<and> m + 1 \<le> m')"
      unfolding d dd' by (simp only: month_end_le)
    then show ?thesis using lt m False by arith
  qed
qed

lemma month_ends_between_step:
  assumes "valid_date cur" "is_month_end cur" "cur \<le> e"
  shows "month_ends_between cur e = insert cur (month_ends_between (next_month_end cur) e)"
proof (rule set_eqI)
  fix d
  show "d \<in> month_ends_between cur e \<longleftrightarrow> d \<in> insert cur (month_ends_between (next_month_end cur) e)"
  proof (cases "valid_date d \<and> is_month_end d")
    case False
    then show ?thesis using assms by (auto simp: month_ends_between_def)
  next
    case True
    then have "next_month_end cur \<le> d \<longleftrightarrow> cur < d"
      using next_month_end_le[OF assms(1,2)] by blast
    then show ?thesis using assms True by (auto simp: month_ends_between_def)
  qed
qed

lemma month_ends_between_next_notin:
  assumes "valid_date cur" "is_month_end cur"
  shows "cur \<notin> month_ends_between (next_month_end cur) e"
  using next_month_end_le[OF assms assms] by (simp add: month_ends_between_def)

lemma month_ends_upto_set:
  assumes "valid_date cur" "is_month_end cur"
  shows "set (month_ends_upto cur e) = month_ends_between cur e \<and> distinct (month_ends_upto cur e)"
  using assms
proof (induction cur e rule: month_ends_upto.induct)
  case (1 cur e)
  show ?case
  proof (cases "cur \<le> e")
    case False
    then have "month_ends_upto cur e = []" by (simp add: month_ends_upto.simps[of cur e])
    moreover have "month_ends_between cur e = {}"
      using False by (auto simp: month_ends_between_def)
    ultimately show ?thesis by simp
  next
    case le: True
    show ?thesis
    proof (cases "cur = e")
      case True
      then have "month_ends_upto cur e = [cur]" by (subst month_ends_upto.simps) simp
      moreover have "month_ends_between cur e = {cur}"
        using True "1.prems" by (auto simp: month_ends_between_def)
      ultimately show ?thesis by simp
    next
      case False
      have IH: "set (month_ends_upto (next_month_end cur) e) = month_ends_between (next_month_end cur) e
          \<and> distinct (month_ends_upto (next_month_end cur) e)"
        using "1.IH"[OF le False] "1.prems" valid_next_month_end is_month_end_next by blast
      have u: "month_ends_upto cur e = cur # month_ends_upto (next_month_end cur) e"
        using le False by (simp add: month_ends_upto.simps[of cur e])
      show ?thesis
        unfolding u
        using IH month_ends_between_step[OF "1.prems" le] month_ends_between_next_notin[OF "1.prems", of e]
        by simp
    qed
  qed
qed

lemma date_range_M_card:
  assumes "valid_date a"
  shows "length (date_range_M a b) = card (month_ends_between a b)"
proof -
  have r: "valid_date (rollforward a)" "is_month_end (rollforward a)"
    using assms by (simp_all add: valid_rollforward is_month_end_rollforward)
  have "\<And>d. valid_date d \<and> is_month_end d \<Longrightarrow> (rollforward a \<le> d) = (a \<le> d)"
    using rollforward_le[OF assms] by blast
  then have "month_ends_between (rollforward a) b = month_ends_between a b"
    unfolding month_ends_between_def by blast
  moreover have "length (month_ends_upto (rollforward a) b) = card (set (month_ends_upto (rollforward a) b))"
    using month_ends_upto_set[OF r, of b] distinct_card[of "month_ends_upto (rollforward a) b"]
    by presburger
  ultimately show ?thesis
    using month_ends_upto_set[OF r, of b] by (simp add: date_range_M_def)
qed

lemma dates_min_Min: "ds \<noteq> [] \<Longrightarrow> dates_min ds = Some (Min (set ds))"
  by (cases ds) (simp_all only: dates_min.simps Min.set_eq_fold, simp)

lemma dates_max_Max: "ds \<noteq> [] \<Longrightarrow> dates_max ds = Some (Max (set ds))"
  by (cases ds) (simp_all only: dates_max.simps Max.set_eq_fold, simp)

lemma storage_duration_card:
  assumes "injection_dates c \<noteq> []" "withdrawal_dates c \<noteq> []"
    and "\<forall>d \<in> set (injection_dates c). valid_date d"
  shows "storage_duration c =
     Inr (card (month_ends_between (Min (set (injection_dates c))) (Max (set (withdrawal_dates c)))))"
proof -
  have "Min (set (injection_dates c)) \<in> set (injection_dates c)"
    using assms(1) by (intro Min_in) simp_all
  then have "valid_date (Min (set (injection_dates c)))" using assms(3) by blast
  then show ?thesis
    using assms(1,2)
    by (simp add: storage_duration_def dates_min_Min dates_max_Max date_range_M_card)
qed

text \<open>
  C7.  For non-empty schedules of calendar dates and price lists as long as their
  schedules, the function returns, and the storage cost it charges is the storage
  cost per month times the number of month ends in the closed interval from the
  earliest injection date to the latest withdrawal date.  It is computed once, after
  the date loop, from the two schedules and the cost alone: any other contract with
  the same schedules and the same storage cost is charged the same amount, whatever
  its prices, rates and capacity, and so whatever events succeeded.
\<close>

theorem C7_storage_cost:
  assumes "injection_dates c \<noteq> []" and "withdrawal_dates c \<noteq> []"
    and "\<forall>d \<in> set (injection_dates c). valid_date d"
    and "length (purchase_prices c) = length (injection_dates c)"
    and "length (sale_prices c) = length (withdrawal_dates c)"
  shows "\<exists>out. run_contract rnd c = Inr out \<and>
           run_dates rnd c (all_dates c) initial_state = Inr (final out) \<and>
           total_storage_cost out =
             rnd (storage_cost c *
                  of_nat (card (month_ends_between (Min (set (injection_dates c)))
                                                   (Max (set (withdrawal_dates c)))))) \<and>
           contract_value out =
             rnd (rnd (rnd (rnd (total_sales_revenue (final out) - total_purchase_cost (final out))
                            - total_storage_cost out)
                       - total_injection_withdrawal_cost (final out))
                  - total_transportation_cost (final out)) \<and>
           (\<forall>c'. injection_dates c' = injection_dates c \<and>
                 withdrawal_dates c' = withdrawal_dates c \<and>
                 storage_cost c' = storage_cost c \<and>
                 length (purchase_prices c') = length (injection_dates c') \<and>
                 length (sale_prices c') = length (withdrawal_dates c') \<longrightarrow>
                 (\<exists>out'. run_contract rnd c' = Inr out' \<and>
                         total_storage_cost out' = total_storage_cost out))"
proof -
  obtain s where s: "run_dates rnd c (all_dates c) initial_state = Inr s"
    using run_dates_ok[OF assms(4,5)] by blast
  define n where "n = card (month_ends_between (Min (set (injection_dates c)))
                                                   (Max (set (withdrawal_dates c))))"
  have d: "storage_duration c = Inr n"
    unfolding n_def by (rule storage_duration_card[OF assms(1,2,3)])
  have out: "run_contract rnd c = Inr (settle rnd c s n)"
    by (simp add: run_contract_def s d)
  have other: "\<exists>out'. run_contract rnd c' = Inr out' \<and>
                 total_storage_cost out' = total_storage_cost (settle rnd c s n)"
    if c': "injection_dates c' = injection_dates c \<and>
                 withdrawal_dates c' = withdrawal_dates c \<and>
                 storage_cost c' = storage_cost c \<and>
                 length (purchase_prices c') = length (injection_dates c') \<and>
                 length (sale_prices c') = length (withdrawal_dates c')" for c'
  proof -
    obtain s' where s': "run_dates rnd c' (all_dates c') initial_state = Inr s'"
      using run_dates_ok[of c'] c' by blast
    have "storage_duration c' = storage_duration c"
      using c' by (simp add: storage_duration_def)
    then have "run_contract rnd c' = Inr (settle rnd c' s' n)"
      by (simp add: run_contract_def s' d)
    then show ?thesis using c' by (simp add: settle_def Let_def)
  qed
  show ?thesis
    apply (rule exI[of _ "settle rnd c s n"])
    apply (intro conjI allI impI)
        apply (rule out)
       apply (simp add: settle_def Let_def s)
      apply (simp add: settle_def Let_def n_def)
     apply (simp add: settle_def Let_def)
    apply (erule other)
    done
qed

theorem C7_storage_cost_witness:
  "(\<exists>out. run_contract round_double example_contract = Inr out \<and>
       total_storage_cost out = 600000 \<and>
       total_storage_cost out =
         round_double (100000 * of_nat (card (month_ends_between (2023, 5, 1) (2023, 11, 3)))))"
proof -
  have v: "\<forall>d \<in> set (injection_dates example_contract). valid_date d"
    by (simp add: example_contract_def days_in_month_def)
  have mn: "Min (set (injection_dates example_contract)) = (2023, 5, 1)"
    by (simp add: example_contract_def less_eq_prod_def less_prod_def min_def)
  have mx: "Max (set (withdrawal_dates example_contract)) = (2023, 11, 3)"
    by (simp add: example_contract_def less_eq_prod_def less_prod_def max_def)
  obtain out where out: "run_contract round_double example_contract = Inr out"
     "total_storage_cost out =
             round_double (storage_cost example_contract *
                  of_nat (card (month_ends_between (Min (set (injection_dates example_contract)))
                                                   (Max (set (withdrawal_dates example_contract))))))"
    using C7_storage_cost[of example_contract round_double, OF _ _ v]
    by (auto simp: example_contract_def)
  have "out = \<lparr>final = \<lparr>volume = 0, total_purchase_cost = 6300000, total_sales_revenue = 9300000,
                      total_injection_withdrawal_cost = 60000,
                      total_transportation_cost = 300000, printed = []\<rparr>,
          total_storage_cost = 600000, contract_value = 2040000\<rparr>"
    using out(1)
    apply (simp only: run_contract_def example_loop example_duration)
    apply (simp add: settle_def example_contract_def round_double_int)
    done
  then have "total_storage_cost out = 600000" by simp
  moreover have "storage_cost example_contract = 100000" by (simp add: example_contract_def)
  ultimately show ?thesis using out unfolding mn mx by auto
qed

section \<open>The bounds of the volume\<close>

text \<open>
  In exact arithmetic the guards keep the volume between zero and the capacity.  In
  double precision they do not, as \<open>overfill_contract\<close> shows.
\<close>

lemma inject_bounds_exact:
  assumes "inject exact c d s = Inr s'" "0 \<le> volume s" "volume s \<le> max_storage c"
    and "0 < injection_rate c"
  shows "0 \<le> volume s' \<and> volume s' \<le> max_storage c"
  using assms
  by (auto simp: inject_def exact_def split: option.splits if_splits sum.splits)

lemma withdraw_bounds_exact:
  assumes "withdraw exact c d s = Inr s'" "0 \<le> volume s" "volume s \<le> max_storage c"
    and "0 < withdrawal_rate c"
  shows "0 \<le> volume s' \<and> volume s' \<le> max_storage c"
  using assms
  by (auto simp: withdraw_def exact_def split: option.splits if_splits sum.splits)

lemma run_dates_bounds_exact:
  assumes "0 < injection_rate c" "0 < withdrawal_rate c"
  shows "run_dates exact c ds s = Inr s' \<Longrightarrow> 0 \<le> volume s \<Longrightarrow> volume s \<le> max_storage c \<Longrightarrow>
         0 \<le> volume s' \<and> volume s' \<le> max_storage c"
proof (induction ds arbitrary: s)
  case Nil
  then show ?case by simp
next
  case (Cons d ds)
  from Cons.prems(1) obtain s1 where v: "visit exact c d s = Inr s1"
    and r: "run_dates exact c ds s1 = Inr s'"
    by (auto split: sum.splits)
  from v obtain s0 where i: "inject exact c d s = Inr s0" and w: "withdraw exact c d s0 = Inr s1"
    by (auto simp: visit_def split: sum.splits)
  have "0 \<le> volume s0 \<and> volume s0 \<le> max_storage c"
    using inject_bounds_exact[OF i Cons.prems(2,3) assms(1)] .
  then have "0 \<le> volume s1 \<and> volume s1 \<le> max_storage c"
    using withdraw_bounds_exact[OF w _ _ assms(2)] by blast
  then show ?case using Cons.IH[OF r] by blast
qed

lemma overfill_roundings:
  "round_double (39 / 100) = 3512807709348987 / 9007199254740992"
  "round_double (3512807709348987 / 9007199254740992) = 3512807709348987 / 9007199254740992"
  "round_double (3512807709348987 / 4503599627370496) = 3512807709348987 / 4503599627370496"
  "round_double (10538423128046961 / 9007199254740992) = 658651445502935 / 562949953421312"
  "round_double (14051230837395947 / 9007199254740992) = 3512807709348987 / 2251799813685248"
  "round_double (3512807709348987 / 2251799813685248) = 3512807709348987 / 2251799813685248"
  "round_double (39 / 20) = 8782019273372467 / 4503599627370496"
  "round_double (17564038546744935 / 9007199254740992) = 2195504818343117 / 1125899906842624"
  "round_double (10538423128046961 / 4503599627370496) = 658651445502935 / 281474976710656"
  "round_double (14051230837395947 / 4503599627370496) = 3512807709348987 / 1125899906842624"
  "round_double (17564038546744935 / 4503599627370496) = 2195504818343117 / 562949953421312"
  by code_simp+

lemma round_double_0: "round_double 0 = 0"
  by (simp add: round_double_def)

text \<open>
  C6 at this input.  The rates and the capacity are positive, the five injection
  dates are the first five dates visited, every one of the five injections passes
  the guard \<^verbatim>\<open>volume <= max_storage - injection_rate\<close>, and after the fifth the volume
  is 1.9500000000000002, above the capacity 1.95.
\<close>

theorem C6_volume_exceeds_capacity:
  "0 < injection_rate overfill_contract \<and> 0 < withdrawal_rate overfill_contract \<and>
   0 < max_storage overfill_contract \<and>
   take 5 (all_dates overfill_contract) =
     [(2023, 5, 1), (2023, 5, 2), (2023, 5, 3), (2023, 5, 4), (2023, 5, 5)] \<and>
   max_storage overfill_contract = 8782019273372467 / 4503599627370496 \<and>
   map_sum id volume
     (run_dates round_double overfill_contract (take 5 (all_dates overfill_contract)) initial_state) =
     Inr (8782019273372468 / 4503599627370496) \<and>
   map_sum id printed
     (run_dates round_double overfill_contract (take 5 (all_dates overfill_contract)) initial_state) =
     Inr []"
proof -
  have d: "all_dates overfill_contract =
     [(2023, 5, 1), (2023, 5, 2), (2023, 5, 3), (2023, 5, 4), (2023, 5, 5), (2023, 11, 1)]"
    by (simp add: all_dates_sort overfill_contract_def less_eq_prod_def less_prod_def)
  show ?thesis
    unfolding d
    by (simp add: overfill_contract_def visit_def inject_def withdraw_def initial_state_def
        overfill_roundings round_double_0 round_double_int)
qed

section \<open>The effect on the frame\<close>

lemma example_ordinals: "ordinals example_frame = [737821, 737849, 737880]"
  by (simp add: ordinals_def Dates_def example_frame_def days_before_year_def
      days_before_month_def days_in_month_def is_leap_def upt_rec)

text \<open>
  C9, as the code has it.  Both functions leave the rows (the dates and the prices) of
  the frame as they were, and their result depends on the rows and the argument
  alone; but each assigns a column to the caller's frame: \<^verbatim>\<open>estimate_price\<close> the column
  \<^verbatim>\<open>Date_ordinal\<close> with the ordinals of the dates, \<^verbatim>\<open>extrapolate_future_prices\<close> the
  column \<^verbatim>\<open>Time\<close> with the row numbers.
\<close>

theorem C9_frame_effect:
  "rows (snd (estimate_price rnd solve data input_date)) = rows data \<and>
   time_column (snd (estimate_price rnd solve data input_date)) = time_column data \<and>
   date_ordinal_column (snd (estimate_price rnd solve data input_date)) =
     Some (map toordinal (map fst (rows data))) \<and>
   fst (estimate_price rnd solve (data\<lparr>time_column := t, date_ordinal_column := c\<rparr>) input_date) =
     fst (estimate_price rnd solve data input_date) \<and>
   rows (snd (extrapolate_future_prices rnd solve data months)) = rows data \<and>
   date_ordinal_column (snd (extrapolate_future_prices rnd solve data months)) = date_ordinal_column data \<and>
   time_column (snd (extrapolate_future_prices rnd solve data months)) =
     Some (map int [0..<length (rows data)]) \<and>
   fst (extrapolate_future_prices rnd solve (data\<lparr>time_column := t, date_ordinal_column := c\<rparr>) months) =
     fst (extrapolate_future_prices rnd solve data months)"
  by (simp add: estimate_price_def extrapolate_future_prices_def Let_def ordinals_def Dates_def
      Prices_def in_range_def split: sum.splits option.splits)

text \<open>
  C9, as the claim has it, fails: after either call the frame is not the frame
  before the call.
\<close>

theorem C9_counterexample:
  "snd (estimate_price id least_squares example_frame (2021, 2, 14)) \<noteq> example_frame \<and>
   snd (extrapolate_future_prices id least_squares example_frame 3) \<noteq> example_frame \<and>
   date_ordinal_column (snd (estimate_price id least_squares example_frame (2021, 2, 14))) =
     Some [737821, 737849, 737880] \<and>
   time_column (snd (extrapolate_future_prices id least_squares example_frame 3)) = Some [0, 1, 2]"
proof -
  have 1: "date_ordinal_column (snd (estimate_price id least_squares example_frame (2021, 2, 14))) =
     Some [737821, 737849, 737880]"
    by (simp add: estimate_price_def Let_def example_ordinals)
  have 2: "time_column (snd (extrapolate_future_prices id least_squares example_frame 3)) = Some [0, 1, 2]"
    by (simp add: extrapolate_future_prices_def Let_def example_frame_def upt_rec)
  have 3: "date_ordinal_column example_frame = None" "time_column example_frame = None"
    by (simp_all add: example_frame_def)
  show ?thesis using 1 2 3 by (metis option.distinct(1))
qed

section \<open>Least squares\<close>





section \<open>Ordinals are chronological\<close>

lemma days_before_month_Suc:
  "1 \<le> m \<Longrightarrow> days_before_month y (Suc m) = days_before_month y m + days_in_month y m"
  by (simp add: days_before_month_def)

lemma days_before_month_mono: "m \<le> m' \<Longrightarrow> days_before_month y m \<le> days_before_month y m'"
proof (induction m' rule: nat_induct_at_least)
  case base
  then show ?case by simp
next
  case (Suc n)
  show ?case
  proof (cases "1 \<le> n")
    case True
    then show ?thesis using Suc.IH by (simp add: days_before_month_Suc)
  next
    case False
    then have "m = 0" "n = 0" using Suc.hyps by simp_all
    then show ?thesis by (simp add: days_before_month_def)
  qed
qed

lemma days_before_month_13: "days_before_month y 13 = days_in_year y"
proof -
  have "[1..<13] = [1,2,3,4,5,6,7,8,9,10,11,12::nat]" by (simp add: upt_rec)
  then show ?thesis by (simp add: days_before_month_def days_in_month_def days_in_year_def)
qed

lemma mod_400_100: "(k::nat) mod 400 = 0 \<Longrightarrow> k mod 100 = 0"
proof -
  assume "k mod 400 = 0"
  then have "400 dvd k" by (simp add: mod_eq_0_iff_dvd)
  moreover have "(100::nat) dvd 400" by simp
  ultimately have "100 dvd k" by (rule dvd_trans[rotated])
  then show ?thesis by (simp add: mod_eq_0_iff_dvd)
qed

lemma mod_100_4: "(k::nat) mod 100 = 0 \<Longrightarrow> k mod 4 = 0"
proof -
  assume "k mod 100 = 0"
  then have "100 dvd k" by (simp add: mod_eq_0_iff_dvd)
  moreover have "(4::nat) dvd 100" by simp
  ultimately have "4 dvd k" by (rule dvd_trans[rotated])
  then show ?thesis by (simp add: mod_eq_0_iff_dvd)
qed

lemma days_before_year_Suc:
  assumes "1 \<le> y"
  shows "days_before_year (Suc y) = days_before_year y + days_in_year y"
proof -
  obtain n where y: "y = Suc n" using assms by (cases y) auto
  define A B C where "A = n div 4" and "B = n div 400" and "C = n div 100"
  define p4 p100 p400 where "p4 \<longleftrightarrow> Suc n mod 4 = 0" and "p100 \<longleftrightarrow> Suc n mod 100 = 0"
    and "p400 \<longleftrightarrow> Suc n mod 400 = 0"
  have le: "C \<le> A" unfolding A_def C_def by (rule div_le_mono2) simp_all
  have a: "p400 \<Longrightarrow> p100" unfolding p400_def p100_def by (rule mod_400_100)
  have b: "p100 \<Longrightarrow> p4" unfolding p4_def p100_def by (rule mod_100_4)
  have d4: "Suc n div 4 = (if p4 then Suc A else A)"
    unfolding p4_def A_def by (rule div_Suc)
  have d100: "Suc n div 100 = (if p100 then Suc C else C)"
    unfolding p100_def C_def by (rule div_Suc)
  have d400: "Suc n div 400 = (if p400 then Suc B else B)"
    unfolding p400_def B_def by (rule div_Suc)
  have leap: "is_leap (Suc n) \<longleftrightarrow> p4 \<and> (\<not> p100 \<or> p400)"
    unfolding is_leap_def p4_def p100_def p400_def ..
  have l: "days_before_year (Suc (Suc n)) =
      Suc n * 365 + (if p4 then Suc A else A) + (if p400 then Suc B else B) - (if p100 then Suc C else C)"
    unfolding days_before_year_def diff_Suc_1 d4 d100 d400 ..
  have r: "days_before_year (Suc n) = n * 365 + A + B - C"
    unfolding days_before_year_def diff_Suc_1 A_def B_def C_def ..
  show ?thesis
    unfolding y l r days_in_year_def leap
    using le a b by (cases p4; cases p100; cases p400) simp_all
qed

lemma days_before_year_mono: "y \<le> y' \<Longrightarrow> 1 \<le> y \<Longrightarrow> days_before_year y \<le> days_before_year y'"
proof (induction y' rule: dec_induct)
  case base
  then show ?case by simp
next
  case (step n)
  then show ?case using days_before_year_Suc[of n] by simp
qed

lemma toordinal_year_bound:
  assumes "valid_date (y, m, d)"
  shows "toordinal (y, m, d) \<le> int (days_before_year (Suc y))"
proof -
  have m: "1 \<le> m" "m \<le> 12" "d \<le> days_in_month y m" "1 \<le> y" using assms by simp_all
  have "days_before_month y m + d \<le> days_before_month y (Suc m)"
    using m by (simp add: days_before_month_Suc)
  also have "\<dots> \<le> days_before_month y 13"
    using m by (intro days_before_month_mono) simp
  finally have "days_before_month y m + d \<le> days_in_year y" by (simp add: days_before_month_13)
  then show ?thesis using m by (simp add: days_before_year_Suc)
qed

lemma toordinal_strict_mono:
  assumes "valid_date a" "valid_date b" "a < b"
  shows "toordinal a < toordinal b"
proof -
  obtain y m d where a: "a = (y, m, d)" by (cases a)
  obtain y' m' d' where b: "b = (y', m', d')" by (cases b)
  have va: "1 \<le> y" "1 \<le> m" "m \<le> 12" "1 \<le> d" "d \<le> days_in_month y m"
    using assms(1) a by simp_all
  have vb: "1 \<le> y'" "1 \<le> m'" "m' \<le> 12" "1 \<le> d'" "d' \<le> days_in_month y' m'"
    using assms(2) b by simp_all
  from assms(3) consider "y < y'" | "y = y'" "m < m'" | "y = y'" "m = m'" "d < d'"
    unfolding a b by (cases "y = y'"; cases "m = m'") (auto simp: less_prod_def less_eq_prod_def)
  then show ?thesis
  proof cases
    case 1
    have "toordinal a \<le> int (days_before_year (Suc y))"
      using toordinal_year_bound assms(1) a by blast
    also have "\<dots> \<le> int (days_before_year y')"
      using 1 va by (simp add: days_before_year_mono)
    also have "\<dots> < toordinal b" using vb by (simp add: b)
    finally show ?thesis .
  next
    case 2
    have "days_before_month y m + d \<le> days_before_month y (Suc m)"
      using va by (simp add: days_before_month_Suc)
    also have "\<dots> \<le> days_before_month y m'"
      using 2 by (intro days_before_month_mono) simp
    finally show ?thesis using 2 vb by (simp add: a b)
  next
    case 3
    then show ?thesis by (simp add: a b)
  qed
qed

lemma toordinal_mono:
  assumes "valid_date a" "valid_date b"
  shows "toordinal a \<le> toordinal b \<longleftrightarrow> a \<le> b"
  using toordinal_strict_mono[OF assms] toordinal_strict_mono[OF assms(2,1)]
  by (metis leD leI le_less)

lemma toordinal_less_iff:
  assumes "valid_date a" "valid_date b"
  shows "toordinal a < toordinal b \<longleftrightarrow> a < b"
  using toordinal_mono[OF assms(2,1)] by (simp add: not_le[symmetric])

section \<open>Estimates outside the observed range\<close>













section \<open>Estimates inside the observed range\<close>










section \<open>Extrapolation\<close>


















end
